theory Spec2Isabelle
  imports Main "HOL-Library.Sublist"
begin

section \<open>Python values\<close>

text \<open>
  The script \<^verbatim>\<open>run-all-benchmarks.py\<close> is a list of eighteen dictionaries and a loop that
  drives the \<^verbatim>\<open>adb\<close> command line tool. A dictionary value of the script is a string or an
  integer; booleans are part of the value type because the script's data can be asked
  whether it holds one.
\<close>

datatype pyval = is_str: PyStr string | is_int: PyInt int | is_bool: PyBool bool

text \<open>
  A dictionary literal, as the association list of its items in the order written. No
  literal of the script repeats a key, so the first binding found is the only one.
\<close>

type_synonym dict = "(string \<times> pyval) list"

datatype exn =
    KeyError string
  | TypeError
  | CalledProcessError int "string list"

definition getitem :: "dict \<Rightarrow> string \<Rightarrow> exn + pyval" where
  "getitem d k = (case map_of d k of None \<Rightarrow> Inl (KeyError k) | Some v \<Rightarrow> Inr v)"

text \<open>\<^verbatim>\<open>str(x)\<close>: decimal digits for an integer, the string itself for a string.\<close>

definition digit :: "nat \<Rightarrow> char" where
  "digit d = ''0123456789'' ! d"

function decimal :: "nat \<Rightarrow> string" where
  "decimal n = (if n < 10 then [digit n] else decimal (n div 10) @ [digit (n mod 10)])"
  by pat_completeness auto
termination
  by (relation "measure id") auto

declare decimal.simps [simp del]

fun str :: "pyval \<Rightarrow> string" where
  "str (PyStr s) = s"
| "str (PyInt n) = (if n < 0 then CHR ''-'' # decimal (nat (- n)) else decimal (nat n))"
| "str (PyBool b) = (if b then ''True'' else ''False'')"

text \<open>
  \<^verbatim>\<open>range(start, stop, step)\<close> for a positive step, the only kind the script uses
  (\<^verbatim>\<open>range(5, 31, 5)\<close>); the count of elements is Python's
  \<^verbatim>\<open>max(0, (stop - start + step - 1) // step)\<close>.
\<close>

definition py_range :: "int \<Rightarrow> int \<Rightarrow> int \<Rightarrow> int list" where
  "py_range start stop step =
     (if 0 < step
      then map (\<lambda>k. start + step * int k) [0..<nat ((stop - start + step - 1) div step)]
      else [])"

text \<open>\<^verbatim>\<open>enumerate(xs, start)\<close>.\<close>

fun py_enumerate :: "'a list \<Rightarrow> int \<Rightarrow> (int \<times> 'a) list" where
  "py_enumerate [] i = []"
| "py_enumerate (x # xs) i = (i, x) # py_enumerate xs (i + 1)"

section \<open>The configuration list (lines 9 to 33)\<close>

definition configs :: "dict list" where
  "configs = [
    [(''name'', PyStr ''baseline_static_100''), (''size'', PyInt 100), (''scenario'', PyStr ''STATIC''), (''preparedCache'', PyStr ''false''), (''drawCache'', PyStr ''false'')],
    [(''name'', PyStr ''preparedcache_static_100''), (''size'', PyInt 100), (''scenario'', PyStr ''STATIC''), (''preparedCache'', PyStr ''true''), (''drawCache'', PyStr ''false'')],
    [(''name'', PyStr ''drawcache_static_100''), (''size'', PyInt 100), (''scenario'', PyStr ''STATIC''), (''preparedCache'', PyStr ''false''), (''drawCache'', PyStr ''true'')],
    [(''name'', PyStr ''baseline_mutation_100''), (''size'', PyInt 100), (''scenario'', PyStr ''FULL_MUTATION''), (''preparedCache'', PyStr ''false''), (''drawCache'', PyStr ''false'')],
    [(''name'', PyStr ''preparedcache_mutation_100''), (''size'', PyInt 100), (''scenario'', PyStr ''FULL_MUTATION''), (''preparedCache'', PyStr ''true''), (''drawCache'', PyStr ''false'')],
    [(''name'', PyStr ''drawcache_mutation_100''), (''size'', PyInt 100), (''scenario'', PyStr ''FULL_MUTATION''), (''preparedCache'', PyStr ''false''), (''drawCache'', PyStr ''true'')],
    [(''name'', PyStr ''baseline_static_500''), (''size'', PyInt 500), (''scenario'', PyStr ''STATIC''), (''preparedCache'', PyStr ''false''), (''drawCache'', PyStr ''false'')],
    [(''name'', PyStr ''preparedcache_static_500''), (''size'', PyInt 500), (''scenario'', PyStr ''STATIC''), (''preparedCache'', PyStr ''true''), (''drawCache'', PyStr ''false'')],
    [(''name'', PyStr ''drawcache_static_500''), (''size'', PyInt 500), (''scenario'', PyStr ''STATIC''), (''preparedCache'', PyStr ''false''), (''drawCache'', PyStr ''true'')],
    [(''name'', PyStr ''baseline_mutation_500''), (''size'', PyInt 500), (''scenario'', PyStr ''FULL_MUTATION''), (''preparedCache'', PyStr ''false''), (''drawCache'', PyStr ''false'')],
    [(''name'', PyStr ''preparedcache_mutation_500''), (''size'', PyInt 500), (''scenario'', PyStr ''FULL_MUTATION''), (''preparedCache'', PyStr ''true''), (''drawCache'', PyStr ''false'')],
    [(''name'', PyStr ''drawcache_mutation_500''), (''size'', PyInt 500), (''scenario'', PyStr ''FULL_MUTATION''), (''preparedCache'', PyStr ''false''), (''drawCache'', PyStr ''true'')],
    [(''name'', PyStr ''baseline_static_1000''), (''size'', PyInt 1000), (''scenario'', PyStr ''STATIC''), (''preparedCache'', PyStr ''false''), (''drawCache'', PyStr ''false'')],
    [(''name'', PyStr ''preparedcache_static_1000''), (''size'', PyInt 1000), (''scenario'', PyStr ''STATIC''), (''preparedCache'', PyStr ''true''), (''drawCache'', PyStr ''false'')],
    [(''name'', PyStr ''drawcache_static_1000''), (''size'', PyInt 1000), (''scenario'', PyStr ''STATIC''), (''preparedCache'', PyStr ''false''), (''drawCache'', PyStr ''true'')],
    [(''name'', PyStr ''baseline_mutation_1000''), (''size'', PyInt 1000), (''scenario'', PyStr ''FULL_MUTATION''), (''preparedCache'', PyStr ''false''), (''drawCache'', PyStr ''false'')],
    [(''name'', PyStr ''preparedcache_mutation_1000''), (''size'', PyInt 1000), (''scenario'', PyStr ''FULL_MUTATION''), (''preparedCache'', PyStr ''true''), (''drawCache'', PyStr ''false'')],
    [(''name'', PyStr ''drawcache_mutation_1000''), (''size'', PyInt 1000), (''scenario'', PyStr ''FULL_MUTATION''), (''preparedCache'', PyStr ''false''), (''drawCache'', PyStr ''true'')]
  ]"

section \<open>Effects: printing, sleeping, running a command\<close>

text \<open>
  What \<^verbatim>\<open>subprocess.run\<close> learns of a command it has started is the exit status of the
  child process. The script captures no output: the child writes on the terminal the
  script inherited, and \<open>child_output\<close> is that text, which no statement of the script
  can read. The model covers the executions in which the \<^verbatim>\<open>adb\<close> executable can be
  started, so that every command run has an exit status.
\<close>

datatype completed = Completed (returncode: int) (child_output: string)

text \<open>
  The trace of an execution: every effect in the order it happened, a command together
  with what the world answered.
\<close>

datatype event =
    Print string
  | Sleep int
  | Run "string list" bool completed

text \<open>
  The world outside the script: its answer to a command may depend on everything that
  happened before (the trace so far) and on the command line.
\<close>

type_synonym world = "event list \<Rightarrow> string list \<Rightarrow> completed"

text \<open>
  A statement takes the trace so far and either completes with the longer trace (\<open>Inr\<close>)
  or raises an exception, which ends the script (\<open>Inl\<close>, with the trace at that moment).
\<close>

type_synonym outcome = "(exn \<times> event list) + event list"
type_synonym stmt = "event list \<Rightarrow> outcome"

definition seq :: "stmt \<Rightarrow> stmt \<Rightarrow> stmt" where
  "seq p q t = (case p t of Inl x \<Rightarrow> Inl x | Inr t' \<Rightarrow> q t')"

fun block :: "stmt list \<Rightarrow> stmt" where
  "block [] t = Inr t"
| "block (p # ps) t = seq p (block ps) t"

fun for_each :: "'a list \<Rightarrow> ('a \<Rightarrow> stmt) \<Rightarrow> stmt" where
  "for_each [] body t = Inr t"
| "for_each (x # xs) body t = seq (body x) (for_each xs body) t"

text \<open>An expression that may raise, evaluated before the statement that uses its value.\<close>

definition evaluate :: "exn + 'a \<Rightarrow> ('a \<Rightarrow> stmt) \<Rightarrow> stmt" where
  "evaluate v k t = (case v of Inl e \<Rightarrow> Inl (e, t) | Inr x \<Rightarrow> k x t)"

definition print :: "string \<Rightarrow> stmt" where
  "print s t = Inr (t @ [Print s])"

definition sleep :: "int \<Rightarrow> stmt" where
  "sleep n t = Inr (t @ [Sleep n])"

text \<open>
  \<^verbatim>\<open>subprocess.run(args, check=...)\<close>: an argument that is not a string is a
  \<^verbatim>\<open>TypeError\<close> before any process starts; with \<^verbatim>\<open>check=True\<close> an exit status other
  than zero raises \<^verbatim>\<open>CalledProcessError\<close>; with \<^verbatim>\<open>check=False\<close> the exit status is
  returned and, in this script, dropped.
\<close>

fun argv_of :: "pyval list \<Rightarrow> string list option" where
  "argv_of [] = Some []"
| "argv_of (PyStr s # vs) = map_option ((#) s) (argv_of vs)"
| "argv_of (v # vs) = None"

definition subprocess_run :: "world \<Rightarrow> pyval list \<Rightarrow> bool \<Rightarrow> stmt" where
  "subprocess_run w args check t =
     (case argv_of args of
        None \<Rightarrow> Inl (TypeError, t)
      | Some argv \<Rightarrow>
          (let r = w t argv; t' = t @ [Run argv check r]
           in if check \<and> returncode r \<noteq> 0
              then Inl (CalledProcessError (returncode r) argv, t')
              else Inr t'))"

section \<open>The script\<close>

text \<open>The list \<^verbatim>\<open>cmd\<close> of lines 46 to 55.\<close>

definition launch_cmd :: "dict \<Rightarrow> exn + pyval list" where
  "launch_cmd config =
     (case getitem config ''size'' of Inl e \<Rightarrow> Inl e | Inr size' \<Rightarrow>
      case getitem config ''scenario'' of Inl e \<Rightarrow> Inl e | Inr scenario \<Rightarrow>
      case getitem config ''preparedCache'' of Inl e \<Rightarrow> Inl e | Inr preparedCache \<Rightarrow>
      case getitem config ''drawCache'' of Inl e \<Rightarrow> Inl e | Inr drawCache \<Rightarrow>
        Inr [PyStr ''adb'', PyStr ''shell'', PyStr ''am'', PyStr ''start'', PyStr ''-n'',
             PyStr ''io.fabianterhorst.isometric.benchmark/.BenchmarkActivity'',
             PyStr ''--ei'', PyStr ''sceneSize'', PyStr (str size'),
             PyStr ''--es'', PyStr ''scenario'', scenario,
             PyStr ''--ez'', PyStr ''enablePreparedSceneCache'', preparedCache,
             PyStr ''--ez'', PyStr ''enableDrawWithCache'', drawCache,
             PyStr ''--es'', PyStr ''interaction'', PyStr ''NONE'',
             PyStr ''--ei'', PyStr ''runs'', PyStr ''1''])"

text \<open>The body of the loop of line 41, lines 42 to 86.\<close>

definition loop_body :: "world \<Rightarrow> int \<Rightarrow> int \<times> dict \<Rightarrow> stmt" where
  "loop_body w total_configs = (\<lambda>(i, config).
     evaluate (getitem config ''name'') (\<lambda>name.
     seq (print (''['' @ str (PyInt i) @ ''/'' @ str (PyInt total_configs) @ ''] Running: '' @ str name))
     (evaluate (getitem config ''size'') (\<lambda>size'.
      evaluate (getitem config ''scenario'') (\<lambda>scenario.
      evaluate (getitem config ''preparedCache'') (\<lambda>preparedCache.
      evaluate (getitem config ''drawCache'') (\<lambda>drawCache.
     seq (print (''  Size: '' @ str size' @ '' | Scenario: '' @ str scenario
                 @ '' | PreparedCache: '' @ str preparedCache
                 @ '' | DrawCache: '' @ str drawCache))
     (evaluate (launch_cmd config) (\<lambda>cmd.
      block [
        subprocess_run w [PyStr ''adb'', PyStr ''shell'', PyStr ''am'', PyStr ''force-stop'',
                          PyStr ''io.fabianterhorst.isometric.benchmark''] False,
        sleep 3,
        subprocess_run w [PyStr ''adb'', PyStr ''shell'', PyStr ''am'', PyStr ''kill'',
                          PyStr ''io.fabianterhorst.isometric.benchmark''] False,
        sleep 2,
        subprocess_run w cmd True,
        print ''  Waiting for completion...'',
        for_each (py_range 5 31 5) (\<lambda>wait_sec.
          seq (sleep 5) (print (''  ... '' @ str (PyInt wait_sec) @ ''s elapsed''))),
        print ''  Waiting for results to be saved...'',
        sleep 10,
        subprocess_run w [PyStr ''adb'', PyStr ''shell'', PyStr ''am'', PyStr ''force-stop'',
                          PyStr ''io.fabianterhorst.isometric.benchmark''] False,
        sleep 2,
        subprocess_run w [PyStr ''adb'', PyStr ''shell'', PyStr ''am'', PyStr ''kill'',
                          PyStr ''io.fabianterhorst.isometric.benchmark''] False,
        sleep 1,
        print (''  [OK] Completed'' @ [CHR 0x0A])])))))))))"

text \<open>The whole script, started on the empty trace.\<close>

definition main :: "world \<Rightarrow> outcome" where
  "main w =
     block [
       print (concat (replicate 80 ''='')),
       print ''Running All 18 Benchmark Configurations'',
       print (concat (replicate 80 ''='')),
       print [],
       for_each (py_enumerate configs 1) (loop_body w (int (length configs))),
       print (concat (replicate 80 ''='')),
       print ''All Benchmarks Complete!'',
       print (concat (replicate 80 ''='')),
       print (CHR 0x0A # ''Pulling results...''),
       subprocess_run w [PyStr ''adb'', PyStr ''shell'', PyStr ''cat'',
         PyStr ''/storage/emulated/0/Android/data/io.fabianterhorst.isometric.benchmark/files/benchmark_results.csv''] True]
     []"

section \<open>Reading a trace\<close>

definition trace_of :: "outcome \<Rightarrow> event list" where
  "trace_of r = (case r of Inl (e, t) \<Rightarrow> t | Inr t \<Rightarrow> t)"

text \<open>
  What the script does to the device and to the clock: the commands it issues (with the
  \<^verbatim>\<open>check\<close> flag it passes) and its pauses. Printing is left out.
\<close>

datatype action = Command "string list" bool | Pause int

fun action_of :: "event \<Rightarrow> action list" where
  "action_of (Print s) = []"
| "action_of (Sleep n) = [Pause n]"
| "action_of (Run argv check r) = [Command argv check]"

definition actions :: "event list \<Rightarrow> action list" where
  "actions t = concat (map action_of t)"

text \<open>The command lines issued, and the pauses taken, each in order.\<close>

fun command_of :: "action \<Rightarrow> string list list" where
  "command_of (Command argv check) = [argv]"
| "command_of (Pause n) = []"

definition commands :: "event list \<Rightarrow> string list list" where
  "commands t = concat (map command_of (actions t))"

fun pause_of :: "action \<Rightarrow> int list" where
  "pause_of (Command argv check) = []"
| "pause_of (Pause n) = [n]"

definition pauses :: "event list \<Rightarrow> int list" where
  "pauses t = concat (map pause_of (actions t))"

text \<open>The command lines whose failure raised: run with \<^verbatim>\<open>check=True\<close>, exit status not zero.\<close>

fun failure_of :: "event \<Rightarrow> string list list" where
  "failure_of (Run argv check r) = (if check \<and> returncode r \<noteq> 0 then [argv] else [])"
| "failure_of e = []"

definition failures :: "event list \<Rightarrow> string list list" where
  "failures t = concat (map failure_of t)"

fun succeeded :: "event \<Rightarrow> bool" where
  "succeeded (Run argv check r) = (returncode r = 0)"
| "succeeded e = True"

text \<open>
  The script's side of a trace: every effect, without the world's answers. Two executions
  with the same steps printed, slept and issued the same things in the same order.
\<close>

datatype step = Printed string | Slept int | Issued "string list" bool

fun step_of :: "event \<Rightarrow> step" where
  "step_of (Print s) = Printed s"
| "step_of (Sleep n) = Slept n"
| "step_of (Run argv check r) = Issued argv check"

definition steps :: "event list \<Rightarrow> step list" where
  "steps t = map step_of t"

section \<open>The command lines and the lifecycle of one configuration\<close>

definition force_stop_argv :: "string list" where
  "force_stop_argv =
     [''adb'', ''shell'', ''am'', ''force-stop'', ''io.fabianterhorst.isometric.benchmark'']"

definition kill_argv :: "string list" where
  "kill_argv = [''adb'', ''shell'', ''am'', ''kill'', ''io.fabianterhorst.isometric.benchmark'']"

definition cat_argv :: "string list" where
  "cat_argv = [''adb'', ''shell'', ''cat'',
     ''/storage/emulated/0/Android/data/io.fabianterhorst.isometric.benchmark/files/benchmark_results.csv'']"

text \<open>The command line that \<open>launch_cmd\<close> builds for a configuration, as strings.\<close>

definition launch_argv :: "dict \<Rightarrow> string list" where
  "launch_argv c =
     (case launch_cmd c of
        Inl e \<Rightarrow> []
      | Inr args \<Rightarrow> (case argv_of args of None \<Rightarrow> [] | Some a \<Rightarrow> a))"

text \<open>
  A dictionary the loop body can process: it has a name, and its launch command can be
  built and consists of strings.
\<close>

definition well_formed :: "dict \<Rightarrow> bool" where
  "well_formed c =
     (map_of c ''name'' \<noteq> None \<and>
      (case launch_cmd c of Inl e \<Rightarrow> False | Inr args \<Rightarrow> argv_of args \<noteq> None))"

text \<open>
  The order of the specification: stop, pause, kill, pause, launch, the wait loop (six
  pauses of five), pause, stop, pause, kill, pause. \<open>until_launch\<close> is its beginning, up
  to the launch.
\<close>

definition until_launch :: "dict \<Rightarrow> action list" where
  "until_launch c =
     [Command force_stop_argv False, Pause 3, Command kill_argv False, Pause 2,
      Command (launch_argv c) True]"

definition lifecycle :: "dict \<Rightarrow> action list" where
  "lifecycle c =
     [Command force_stop_argv False, Pause 3, Command kill_argv False, Pause 2,
      Command (launch_argv c) True,
      Pause 5, Pause 5, Pause 5, Pause 5, Pause 5, Pause 5,
      Pause 10,
      Command force_stop_argv False, Pause 2, Command kill_argv False, Pause 1]"

text \<open>
  The whole run of the specification: the lifecycle of every configuration in the order of
  the list, then one retrieval of the results file.
\<close>

definition full_run :: "action list" where
  "full_run = concat (map lifecycle configs) @ [Command cat_argv True]"

text \<open>Two worlds: one where every command succeeds, one where no stop or kill does.\<close>

definition calm :: world where
  "calm h a = Completed 0 []"


text \<open>A world where the launch of the third configuration fails, and one where every
  command succeeds and writes something.\<close>

definition third_launch_fails :: world where
  "third_launch_fails h a =
     (if a = launch_argv (configs ! 2) then Completed 1 ''Error'' else Completed 0 [])"

definition talkative :: world where
  "talkative h a = Completed 0 (''ran '' @ concat a)"

section \<open>Two properties of statements\<close>

text \<open>
  A trace is answered by a world when every answer recorded in it is one the world gives
  to that command line; a statement preserves this. Two statements are alike when,
  started on traces with the same steps, they complete with traces with the same steps
  (or one of them raises).
\<close>

definition answered_by :: "world \<Rightarrow> event list \<Rightarrow> bool" where
  "answered_by w t = (\<forall>a c r. Run a c r \<in> set t \<longrightarrow> (\<exists>h. r = w h a))"

definition preserves :: "world \<Rightarrow> stmt \<Rightarrow> bool" where
  "preserves w p = (\<forall>t. answered_by w t \<longrightarrow> answered_by w (trace_of (p t)))"

fun same_steps :: "outcome \<Rightarrow> outcome \<Rightarrow> bool" where
  "same_steps (Inr x) (Inr y) = (steps x = steps y)"
| "same_steps r r' = True"

definition alike :: "stmt \<Rightarrow> stmt \<Rightarrow> bool" where
  "alike p q = (\<forall>t t'. steps t = steps t' \<longrightarrow> same_steps (p t) (q t'))"

named_theorems preserves_intros
named_theorems alike_intros

section \<open>Auxiliary facts\<close>

lemma py_range_wait: "py_range 5 31 5 = [5, 10, 15, 20, 25, 30]"
  by (simp add: py_range_def upt_conv_Cons)

lemma actions_simps [simp]:
  "actions [] = []"
  "actions (e # t) = action_of e @ actions t"
  "actions (t @ u) = actions t @ actions u"
  by (simp_all add: actions_def)

lemma failures_simps [simp]:
  "failures [] = []"
  "failures (e # t) = failure_of e @ failures t"
  "failures (t @ u) = failures t @ failures u"
  by (simp_all add: failures_def)

lemma steps_simps [simp]:
  "steps [] = []"
  "steps (e # t) = step_of e # steps t"
  "steps (t @ u) = steps t @ steps u"
  by (simp_all add: steps_def)

lemma argv_of_map_PyStr [simp]: "argv_of (map PyStr a) = Some a"
  by (induction a) auto

lemma argv_of_Some: "argv_of args = Some a \<Longrightarrow> args = map PyStr a"
  by (induction args arbitrary: a rule: argv_of.induct) auto

lemma launch_cmd_keys:
  assumes "launch_cmd c = Inr args"
  shows "\<exists>s sc p d. map_of c ''size'' = Some s \<and> map_of c ''scenario'' = Some sc
     \<and> map_of c ''preparedCache'' = Some p \<and> map_of c ''drawCache'' = Some d"
  using assms by (auto simp: launch_cmd_def getitem_def split: option.splits)

lemma well_formed_launch:
  assumes "well_formed c"
  shows "launch_cmd c = Inr (map PyStr (launch_argv c))"
  using assms
  by (auto simp: well_formed_def launch_argv_def split: sum.splits option.splits
      dest: argv_of_Some)

lemma well_formed_name: "well_formed c \<Longrightarrow> \<exists>nm. map_of c ''name'' = Some nm"
  by (auto simp: well_formed_def)

text \<open>
  One pass through the loop body either completes, having gone through the whole
  lifecycle, or is ended by the launch, the only command run with \<^verbatim>\<open>check=True\<close>.
\<close>

lemma loop_body_cases:
  assumes "well_formed c"
  shows "(\<exists>u h. loop_body w n (i, c) t = Inr (t @ u) \<and> actions u = lifecycle c \<and> failures u = []
              \<and> returncode (w h (launch_argv c)) = 0)
       \<or> (\<exists>u h. loop_body w n (i, c) t
                  = Inl (CalledProcessError (returncode (w h (launch_argv c))) (launch_argv c), t @ u)
              \<and> returncode (w h (launch_argv c)) \<noteq> 0
              \<and> actions u = until_launch c \<and> failures u = [launch_argv c]
              \<and> Run (launch_argv c) True (w h (launch_argv c)) \<in> set u)"
proof -
  from well_formed_name [OF assms] obtain nm where nm: "map_of c ''name'' = Some nm" by blast
  note cmd = well_formed_launch [OF assms]
  from launch_cmd_keys [OF cmd] obtain s sc p d where
    k: "map_of c ''size'' = Some s" "map_of c ''scenario'' = Some sc"
       "map_of c ''preparedCache'' = Some p" "map_of c ''drawCache'' = Some d" by blast
  show ?thesis
    unfolding loop_body_def
    by (simp add: evaluate_def getitem_def k nm cmd seq_def print_def sleep_def subprocess_run_def
        py_range_wait Let_def lifecycle_def until_launch_def force_stop_argv_def kill_argv_def
        del: str.simps) blast
qed

text \<open>
  The loop over any list of well-formed dictionaries: it completes, or the launch of one
  of them ends it.
\<close>

lemma run_configs_cases:
  assumes "list_all well_formed cs"
  shows "(\<exists>u. for_each (py_enumerate cs i) (loop_body w n) t = Inr (t @ u)
            \<and> actions u = concat (map lifecycle cs) \<and> failures u = []
            \<and> list_all (\<lambda>c. \<exists>h. returncode (w h (launch_argv c)) = 0) cs)
       \<or> (\<exists>k u h. k < length cs
            \<and> for_each (py_enumerate cs i) (loop_body w n) t
                = Inl (CalledProcessError (returncode (w h (launch_argv (cs ! k))))
                        (launch_argv (cs ! k)), t @ u)
            \<and> returncode (w h (launch_argv (cs ! k))) \<noteq> 0
            \<and> actions u = concat (map lifecycle (take k cs)) @ until_launch (cs ! k)
            \<and> failures u = [launch_argv (cs ! k)]
            \<and> Run (launch_argv (cs ! k)) True (w h (launch_argv (cs ! k))) \<in> set u)"
  using assms
proof (induction cs arbitrary: i t)
  case Nil
  then show ?case by simp
next
  case (Cons c cs)
  then have wf: "well_formed c" and wfs: "list_all well_formed cs" by simp_all
  from loop_body_cases [OF wf, of w n i t] show ?case
  proof (elim disjE exE conjE)
    fix u h0
    assume b: "loop_body w n (i, c) t = Inr (t @ u)" "actions u = lifecycle c" "failures u = []"
      and h0: "returncode (w h0 (launch_argv c)) = 0"
    from Cons.IH [OF wfs, of "i + 1" "t @ u"] show ?thesis
    proof (elim disjE exE conjE)
      fix v
      assume "for_each (py_enumerate cs (i + 1)) (loop_body w n) (t @ u) = Inr ((t @ u) @ v)"
        "actions v = concat (map lifecycle cs)" "failures v = []"
        "list_all (\<lambda>c. \<exists>h. returncode (w h (launch_argv c)) = 0) cs"
      with b h0 have "for_each (py_enumerate (c # cs) i) (loop_body w n) t = Inr (t @ (u @ v))
          \<and> actions (u @ v) = concat (map lifecycle (c # cs)) \<and> failures (u @ v) = []
          \<and> list_all (\<lambda>c. \<exists>h. returncode (w h (launch_argv c)) = 0) (c # cs)"
        by (auto simp: seq_def)
      then show ?thesis by blast
    next
      fix k v h
      assume "k < length cs"
        "for_each (py_enumerate cs (i + 1)) (loop_body w n) (t @ u)
           = Inl (CalledProcessError (returncode (w h (launch_argv (cs ! k))))
                   (launch_argv (cs ! k)), (t @ u) @ v)"
        "returncode (w h (launch_argv (cs ! k))) \<noteq> 0"
        "actions v = concat (map lifecycle (take k cs)) @ until_launch (cs ! k)"
        "failures v = [launch_argv (cs ! k)]"
        "Run (launch_argv (cs ! k)) True (w h (launch_argv (cs ! k))) \<in> set v"
      with b have "Suc k < length (c # cs)
          \<and> for_each (py_enumerate (c # cs) i) (loop_body w n) t
             = Inl (CalledProcessError (returncode (w h (launch_argv ((c # cs) ! Suc k))))
                     (launch_argv ((c # cs) ! Suc k)), t @ (u @ v))
          \<and> returncode (w h (launch_argv ((c # cs) ! Suc k))) \<noteq> 0
          \<and> actions (u @ v)
             = concat (map lifecycle (take (Suc k) (c # cs))) @ until_launch ((c # cs) ! Suc k)
          \<and> failures (u @ v) = [launch_argv ((c # cs) ! Suc k)]
          \<and> Run (launch_argv ((c # cs) ! Suc k)) True (w h (launch_argv ((c # cs) ! Suc k)))
             \<in> set (u @ v)"
        by (simp add: seq_def)
      then show ?thesis by blast
    qed
  next
    fix u h
    assume "loop_body w n (i, c) t
        = Inl (CalledProcessError (returncode (w h (launch_argv c))) (launch_argv c), t @ u)"
      "returncode (w h (launch_argv c)) \<noteq> 0"
      "actions u = until_launch c" "failures u = [launch_argv c]"
      "Run (launch_argv c) True (w h (launch_argv c)) \<in> set u"
    then have "0 < length (c # cs)
          \<and> for_each (py_enumerate (c # cs) i) (loop_body w n) t
             = Inl (CalledProcessError (returncode (w h (launch_argv ((c # cs) ! 0))))
                     (launch_argv ((c # cs) ! 0)), t @ u)
          \<and> returncode (w h (launch_argv ((c # cs) ! 0))) \<noteq> 0
          \<and> actions u = concat (map lifecycle (take 0 (c # cs))) @ until_launch ((c # cs) ! 0)
          \<and> failures u = [launch_argv ((c # cs) ! 0)]
          \<and> Run (launch_argv ((c # cs) ! 0)) True (w h (launch_argv ((c # cs) ! 0))) \<in> set u"
      by (simp add: seq_def)
    then show ?thesis by blast
  qed
qed

lemma configs_well_formed: "list_all well_formed configs"
  by (simp add: configs_def well_formed_def launch_cmd_def getitem_def)

lemma length_configs: "length configs = 18"
  by (simp add: configs_def)

lemma launch_argv_distinct: "distinct (map launch_argv configs)"
  by (simp add: configs_def launch_argv_def launch_cmd_def getitem_def decimal.simps digit_def)

lemma main_unfold:
  "\<exists>b f. actions b = [] \<and> failures b = [] \<and> actions f = [] \<and> failures f = []
     \<and> main w = (case for_each (py_enumerate configs 1) (loop_body w (int (length configs))) b of
                   Inl x \<Rightarrow> Inl x
                 | Inr t \<Rightarrow> subprocess_run w (map PyStr cat_argv) True (t @ f))"
proof -
  let ?line = "Print (concat (replicate 80 ''=''))"
  let ?b = "[?line, Print ''Running All 18 Benchmark Configurations'', ?line, Print []]"
  let ?f = "[?line, Print ''All Benchmarks Complete!'', ?line,
             Print (CHR 0x0A # ''Pulling results...'')]"
  have "main w = (case for_each (py_enumerate configs 1) (loop_body w (int (length configs))) ?b of
                   Inl x \<Rightarrow> Inl x
                 | Inr t \<Rightarrow> subprocess_run w (map PyStr cat_argv) True (t @ ?f))"
    by (simp add: main_def seq_def print_def cat_argv_def split: sum.splits)
  moreover have "actions ?b = [] \<and> failures ?b = [] \<and> actions ?f = [] \<and> failures ?f = []"
    by simp
  ultimately show ?thesis by blast
qed

lemma subprocess_run_checked:
  "subprocess_run w (map PyStr a) True t =
     (if returncode (w t a) \<noteq> 0
      then Inl (CalledProcessError (returncode (w t a)) a, t @ [Run a True (w t a)])
      else Inr (t @ [Run a True (w t a)]))"
  by (simp add: subprocess_run_def Let_def)

text \<open>
  Every execution of the script ends in one of three ways: it completes; the launch of
  some configuration raises; the final \<^verbatim>\<open>cat\<close> raises.
\<close>

lemma main_cases:
  "(\<exists>t. main w = Inr t
        \<and> actions t = full_run
        \<and> failures t = []
        \<and> list_all (\<lambda>c. \<exists>h. returncode (w h (launch_argv c)) = 0) configs)
 \<or> (\<exists>k t h. k < length configs
        \<and> main w = Inl (CalledProcessError (returncode (w h (launch_argv (configs ! k))))
                          (launch_argv (configs ! k)), t)
        \<and> returncode (w h (launch_argv (configs ! k))) \<noteq> 0
        \<and> actions t = concat (map lifecycle (take k configs)) @ until_launch (configs ! k)
        \<and> failures t = [launch_argv (configs ! k)]
        \<and> Run (launch_argv (configs ! k)) True (w h (launch_argv (configs ! k))) \<in> set t)
 \<or> (\<exists>t h. main w = Inl (CalledProcessError (returncode (w h cat_argv)) cat_argv, t)
        \<and> returncode (w h cat_argv) \<noteq> 0
        \<and> actions t = full_run
        \<and> failures t = [cat_argv])"
proof -
  from main_unfold [of w] obtain b f where
    bf: "actions b = []" "failures b = []" "actions f = []" "failures f = []" and
    m: "main w = (case for_each (py_enumerate configs 1) (loop_body w (int (length configs))) b of
                   Inl x \<Rightarrow> Inl x
                 | Inr t \<Rightarrow> subprocess_run w (map PyStr cat_argv) True (t @ f))"
    by blast
  from run_configs_cases [OF configs_well_formed,
      where w = w and i = 1 and n = "int (length configs)" and t = b]
  show ?thesis
  proof (elim disjE exE conjE)
    fix u
    assume l: "for_each (py_enumerate configs 1) (loop_body w (int (length configs))) b
                 = Inr (b @ u)"
      and u: "actions u = concat (map lifecycle configs)" "failures u = []"
        "list_all (\<lambda>c. \<exists>h. returncode (w h (launch_argv c)) = 0) configs"
    let ?t = "(b @ u) @ f"
    let ?e = "Run cat_argv True (w ?t cat_argv)"
    show ?thesis
    proof (cases "returncode (w ?t cat_argv) = 0")
      case True
      with l u bf m have "main w = Inr (?t @ [?e])
          \<and> actions (?t @ [?e]) = full_run
          \<and> failures (?t @ [?e]) = []"
        by (simp add: subprocess_run_checked full_run_def)
      with u(3) show ?thesis by blast
    next
      case False
      with l u bf m have "main w
            = Inl (CalledProcessError (returncode (w ?t cat_argv)) cat_argv, ?t @ [?e])
          \<and> returncode (w ?t cat_argv) \<noteq> 0
          \<and> actions (?t @ [?e]) = full_run
          \<and> failures (?t @ [?e]) = [cat_argv]"
        by (simp add: subprocess_run_checked full_run_def)
      then show ?thesis by blast
    qed
  next
    fix k u h
    assume "k < length configs"
      "for_each (py_enumerate configs 1) (loop_body w (int (length configs))) b
         = Inl (CalledProcessError (returncode (w h (launch_argv (configs ! k))))
                 (launch_argv (configs ! k)), b @ u)"
      "returncode (w h (launch_argv (configs ! k))) \<noteq> 0"
      "actions u = concat (map lifecycle (take k configs)) @ until_launch (configs ! k)"
      "failures u = [launch_argv (configs ! k)]"
      "Run (launch_argv (configs ! k)) True (w h (launch_argv (configs ! k))) \<in> set u"
    with bf m have "k < length configs
        \<and> main w = Inl (CalledProcessError (returncode (w h (launch_argv (configs ! k))))
                          (launch_argv (configs ! k)), b @ u)
        \<and> returncode (w h (launch_argv (configs ! k))) \<noteq> 0
        \<and> actions (b @ u) = concat (map lifecycle (take k configs)) @ until_launch (configs ! k)
        \<and> failures (b @ u) = [launch_argv (configs ! k)]
        \<and> Run (launch_argv (configs ! k)) True (w h (launch_argv (configs ! k))) \<in> set (b @ u)"
      by simp
    then show ?thesis by blast
  qed
qed

lemma commands_simps [simp]:
  "commands [] = []"
  "commands (e # t) = concat (map command_of (action_of e)) @ commands t"
  "commands (t @ u) = commands t @ commands u"
  by (simp_all add: commands_def)

lemma pauses_simps [simp]:
  "pauses [] = []"
  "pauses (e # t) = concat (map pause_of (action_of e)) @ pauses t"
  "pauses (t @ u) = pauses t @ pauses u"
  by (simp_all add: pauses_def)

lemma launch_argv_head:
  assumes "well_formed c"
  shows "\<exists>rest. launch_argv c = ''adb'' # ''shell'' # ''am'' # ''start'' # rest"
proof -
  from well_formed_launch [OF assms]
  have "\<exists>rest. map PyStr (launch_argv c)
           = PyStr ''adb'' # PyStr ''shell'' # PyStr ''am'' # PyStr ''start'' # rest"
    by (auto simp: launch_cmd_def split: sum.splits)
  then show ?thesis
    by (auto simp: map_eq_Cons_conv)
qed

lemma launch_argv_other:
  assumes "well_formed c"
  shows "launch_argv c \<noteq> force_stop_argv" "launch_argv c \<noteq> kill_argv" "launch_argv c \<noteq> cat_argv"
  using launch_argv_head [OF assms]
  by (auto simp: force_stop_argv_def kill_argv_def cat_argv_def)

lemma configs_nth_well_formed: "k < length configs \<Longrightarrow> well_formed (configs ! k)"
  using configs_well_formed by (simp add: list_all_length)

lemma commands_lifecycle:
  "concat (map command_of (lifecycle c))
     = [force_stop_argv, kill_argv, launch_argv c, force_stop_argv, kill_argv]"
  by (simp add: lifecycle_def)

lemma commands_until_launch:
  "concat (map command_of (until_launch c)) = [force_stop_argv, kill_argv, launch_argv c]"
  by (simp add: until_launch_def)



lemma failed_in_failures:
  "Run a True r \<in> set t \<Longrightarrow> returncode r \<noteq> 0 \<Longrightarrow> a \<in> set (failures t)"
  by (induction t) auto

lemma succeeded_no_failures: "list_all succeeded t \<Longrightarrow> failures t = []"
proof (induction t)
  case Nil
  then show ?case by simp
next
  case (Cons e t)
  then show ?case by (cases e) auto
qed

lemma cat_not_in_lifecycles:
  assumes "list_all well_formed cs"
  shows "cat_argv \<notin> set (concat (map command_of (concat (map lifecycle cs))))"
  using assms
proof (induction cs)
  case Nil
  then show ?case by simp
next
  case (Cons c cs)
  then have "well_formed c" and "cat_argv \<notin> set (concat (map command_of (concat (map lifecycle cs))))"
    by simp_all
  moreover have "cat_argv \<noteq> force_stop_argv" "cat_argv \<noteq> kill_argv"
    by (simp_all add: cat_argv_def force_stop_argv_def kill_argv_def)
  ultimately show ?case
    using launch_argv_other(3) [of c] by (auto simp: commands_lifecycle)
qed

lemma commands_of_actions: "commands t = concat (map command_of (actions t))"
  by (simp add: commands_def)

lemma commands_full_run:
  "concat (map command_of full_run)
     = concat (map (\<lambda>c. [force_stop_argv, kill_argv, launch_argv c, force_stop_argv, kill_argv]) configs)
       @ [cat_argv]"
proof -
  have "concat (map command_of (concat (map lifecycle cs)))
     = concat (map (\<lambda>c. [force_stop_argv, kill_argv, launch_argv c, force_stop_argv, kill_argv]) cs)" for cs
    by (induction cs) (simp_all add: commands_lifecycle)
  then show ?thesis by (simp add: full_run_def)
qed

text \<open>The answers in a trace are the world's; the steps of a completed run do not depend
  on the world.\<close>

lemma answered_by_append:
  "answered_by w (t @ u) = (answered_by w t \<and> answered_by w u)"
  unfolding answered_by_def by auto

lemma preserves_print [preserves_intros]: "preserves w (print s)"
  by (simp add: preserves_def print_def trace_of_def answered_by_append) (simp add: answered_by_def)

lemma preserves_sleep [preserves_intros]: "preserves w (sleep n)"
  by (simp add: preserves_def sleep_def trace_of_def answered_by_append) (simp add: answered_by_def)

lemma preserves_run [preserves_intros]: "preserves w (subprocess_run w args c)"
proof -
  have "answered_by w [Run a b (w t a)]" for a b t
    unfolding answered_by_def by auto
  then show ?thesis
    by (simp add: preserves_def subprocess_run_def trace_of_def Let_def answered_by_append
        split: option.splits)
qed

lemma preserves_seq [preserves_intros]:
  assumes "preserves w p" and "preserves w q"
  shows "preserves w (seq p q)"
  unfolding preserves_def
proof (intro allI impI)
  fix t assume t: "answered_by w t"
  show "answered_by w (trace_of (seq p q t))"
  proof (cases "p t")
    case (Inl a)
    with assms(1) t show ?thesis
      unfolding preserves_def seq_def by (metis sum.simps(5))
  next
    case (Inr x)
    with assms(1) t have "answered_by w x"
      unfolding preserves_def trace_of_def by (metis sum.simps(6))
    with assms(2) have "answered_by w (trace_of (q x))"
      unfolding preserves_def by blast
    with Inr show ?thesis by (simp add: seq_def)
  qed
qed

lemma block_Cons: "block (p # ps) = seq p (block ps)"
  by (simp add: fun_eq_iff)

lemma for_each_Cons: "for_each (x # xs) body = seq (body x) (for_each xs body)"
  by (simp add: fun_eq_iff)

lemma preserves_block_Nil [preserves_intros]: "preserves w (block [])"
  by (simp add: preserves_def trace_of_def)

lemma preserves_block_Cons [preserves_intros]:
  "preserves w p \<Longrightarrow> preserves w (block ps) \<Longrightarrow> preserves w (block (p # ps))"
  unfolding block_Cons by (rule preserves_seq)

lemma preserves_for_each [preserves_intros]:
  assumes "\<And>x. preserves w (body x)"
  shows "preserves w (for_each xs body)"
proof (induction xs)
  case Nil
  show ?case by (simp add: preserves_def trace_of_def)
next
  case (Cons x xs)
  show ?case unfolding for_each_Cons by (rule preserves_seq [OF assms Cons])
qed

lemma preserves_evaluate [preserves_intros]:
  assumes "\<And>x. preserves w (k x)"
  shows "preserves w (evaluate v k)"
proof (cases v)
  case (Inl e)
  then show ?thesis by (simp add: preserves_def evaluate_def trace_of_def)
next
  case (Inr x)
  with assms [of x] show ?thesis by (simp add: preserves_def evaluate_def)
qed


lemma preserves_loop_body: "preserves w (loop_body w n ic)"
proof (cases ic)
  case (Pair i config)
  show ?thesis
    unfolding loop_body_def Pair prod.case
    by (intro preserves_intros)
qed

lemma main_answered: "answered_by w (trace_of (main w))"
proof -
  have "preserves w (block [
       print (concat (replicate 80 ''='')),
       print ''Running All 18 Benchmark Configurations'',
       print (concat (replicate 80 ''='')),
       print [],
       for_each (py_enumerate configs 1) (loop_body w (int (length configs))),
       print (concat (replicate 80 ''='')),
       print ''All Benchmarks Complete!'',
       print (concat (replicate 80 ''='')),
       print (CHR 0x0A # ''Pulling results...''),
       subprocess_run w [PyStr ''adb'', PyStr ''shell'', PyStr ''cat'',
         PyStr ''/storage/emulated/0/Android/data/io.fabianterhorst.isometric.benchmark/files/benchmark_results.csv''] True])"
    by (intro preserves_intros preserves_loop_body)
  moreover have "answered_by w []" by (simp add: answered_by_def)
  ultimately show ?thesis unfolding main_def preserves_def by blast
qed

lemma same_steps_Inl [simp]: "same_steps r (Inl x)"
  by (cases r) simp_all

lemma alike_print [alike_intros]: "alike (print s) (print s)"
  by (simp add: alike_def print_def)

lemma alike_sleep [alike_intros]: "alike (sleep n) (sleep n)"
  by (simp add: alike_def sleep_def)

lemma alike_run [alike_intros]: "alike (subprocess_run w args c) (subprocess_run w' args c)"
  by (simp add: alike_def subprocess_run_def Let_def split: option.splits)

lemma alike_seq [alike_intros]:
  assumes "alike p p'" and "alike q q'"
  shows "alike (seq p q) (seq p' q')"
  unfolding alike_def
proof (intro allI impI)
  fix t t' assume s: "steps t = steps t'"
  with assms(1) have 1: "same_steps (p t) (p' t')" by (simp add: alike_def)
  show "same_steps (seq p q t) (seq p' q' t')"
  proof (cases "p t")
    case (Inl a)
    then show ?thesis by (simp add: seq_def)
  next
    case x: (Inr x)
    show ?thesis
    proof (cases "p' t'")
      case (Inl b)
      then show ?thesis by (simp add: seq_def)
    next
      case (Inr y)
      with x 1 have "steps x = steps y" by simp
      with assms(2) have "same_steps (q x) (q' y)" by (simp add: alike_def)
      with x Inr show ?thesis by (simp add: seq_def)
    qed
  qed
qed

lemma alike_block_Nil [alike_intros]: "alike (block []) (block [])"
  by (simp add: alike_def)

lemma alike_block_Cons [alike_intros]:
  "alike p p' \<Longrightarrow> alike (block ps) (block ps') \<Longrightarrow> alike (block (p # ps)) (block (p' # ps'))"
  unfolding block_Cons by (rule alike_seq)

lemma alike_for_each [alike_intros]:
  assumes "\<And>x. alike (body x) (body' x)"
  shows "alike (for_each xs body) (for_each xs body')"
proof (induction xs)
  case Nil
  show ?case by (simp add: alike_def)
next
  case (Cons x xs)
  show ?case unfolding for_each_Cons by (rule alike_seq [OF assms Cons])
qed

lemma alike_evaluate [alike_intros]:
  assumes "\<And>x. alike (k x) (k' x)"
  shows "alike (evaluate v k) (evaluate v k')"
proof (cases v)
  case (Inl e)
  then show ?thesis by (simp add: alike_def evaluate_def)
next
  case (Inr x)
  with assms [of x] show ?thesis by (simp add: alike_def evaluate_def)
qed

lemma alike_loop_body: "alike (loop_body w n ic) (loop_body w' n ic)"
proof (cases ic)
  case (Pair i config)
  show ?thesis
    unfolding loop_body_def Pair prod.case
    by (intro alike_intros)
qed

lemma main_same_steps:
  assumes "main w = Inr t" and "main w' = Inr t'"
  shows "steps t = steps t'"
proof -
  let ?prog = "\<lambda>w. block [
       print (concat (replicate 80 ''='')),
       print ''Running All 18 Benchmark Configurations'',
       print (concat (replicate 80 ''='')),
       print [],
       for_each (py_enumerate configs 1) (loop_body w (int (length configs))),
       print (concat (replicate 80 ''='')),
       print ''All Benchmarks Complete!'',
       print (concat (replicate 80 ''='')),
       print (CHR 0x0A # ''Pulling results...''),
       subprocess_run w [PyStr ''adb'', PyStr ''shell'', PyStr ''cat'',
         PyStr ''/storage/emulated/0/Android/data/io.fabianterhorst.isometric.benchmark/files/benchmark_results.csv''] True]"
  have "alike (?prog w) (?prog w')"
    by (intro alike_intros alike_loop_body)
  then have "same_steps (?prog w []) (?prog w' [])"
    unfolding alike_def by simp
  with assms show ?thesis
    unfolding main_def by simp
qed

lemma launch_argv_nth_eq:
  assumes "j < length configs" and "k < length configs"
    and "launch_argv (configs ! j) = launch_argv (configs ! k)"
  shows "j = k"
  using assms launch_argv_distinct nth_eq_iff_index_eq [of "map launch_argv configs" j k]
  by simp

lemma set_commands_lifecycles:
  "set (concat (map (\<lambda>c. [force_stop_argv, kill_argv, launch_argv c, force_stop_argv, kill_argv]) cs))
     \<subseteq> {force_stop_argv, kill_argv} \<union> launch_argv ` set cs"
  by (induction cs) auto

lemma commands_lifecycles:
  "concat (map command_of (concat (map lifecycle cs)))
     = concat (map (\<lambda>c. [force_stop_argv, kill_argv, launch_argv c, force_stop_argv, kill_argv]) cs)"
  by (induction cs) (simp_all add: commands_lifecycle)


lemma pauses_lifecycle:
  "concat (map pause_of (lifecycle c)) = [3, 2, 5, 5, 5, 5, 5, 5, 10, 2, 1]"
  by (simp add: lifecycle_def)

lemma pauses_lifecycles:
  "concat (map pause_of (concat (map lifecycle cs)))
     = concat (map (\<lambda>c. [3, 2, 5, 5, 5, 5, 5, 5, 10, 2, 1]) cs)"
  by (induction cs) (simp_all add: pauses_lifecycle)


section \<open>The configuration list\<close>

text \<open>
  C7. Across the eighteen configuration entries the values of \<^verbatim>\<open>name\<close> are pairwise
  distinct: looking \<^verbatim>\<open>name\<close> up in each entry gives eighteen different results.
\<close>

theorem config_names_distinct:
  "length configs = 18 \<and> distinct (map (\<lambda>c. getitem c ''name'') configs)"
  by (simp add: configs_def getitem_def)

text \<open>
  C6. The list has eighteen entries, and read in order their sizes, scenarios and cache
  flags are the points of {100, 500, 1000} x {STATIC, FULL_MUTATION} x {baseline,
  preparedCache, drawCache}, sizes outermost and cache modes innermost, each point once
  (the eighteen are pairwise different). Baseline is both flags \<^verbatim>\<open>"false"\<close>; in the other
  two modes the flag of that name is \<^verbatim>\<open>"true"\<close> and the other \<^verbatim>\<open>"false"\<close>.
\<close>

theorem config_matrix:
  "length configs = 18
   \<and> map (\<lambda>c. (getitem c ''size'', getitem c ''scenario'',
               getitem c ''preparedCache'', getitem c ''drawCache'')) configs
     = [(Inr (PyInt n), Inr (PyStr sc), Inr (PyStr p), Inr (PyStr d)).
          n \<leftarrow> [100, 500, 1000],
          sc \<leftarrow> [''STATIC'', ''FULL_MUTATION''],
          (p, d) \<leftarrow> [(''false'', ''false''), (''true'', ''false''), (''false'', ''true'')]]
   \<and> distinct (map (\<lambda>c. (getitem c ''size'', getitem c ''scenario'',
               getitem c ''preparedCache'', getitem c ''drawCache'')) configs)"
  by (simp add: configs_def getitem_def)

text \<open>
  C8. In every entry the two cache flags, read as the strings the script stores, are
  \<^verbatim>\<open>"true"\<close> and \<^verbatim>\<open>"false"\<close>, \<^verbatim>\<open>"false"\<close> and \<^verbatim>\<open>"true"\<close>, or both \<^verbatim>\<open>"false"\<close>: exactly one
  is true or neither is, never both.
\<close>

theorem cache_flags_exclusive:
  "\<forall>c\<in>set configs. \<exists>p d.
       getitem c ''preparedCache'' = Inr (PyStr p) \<and> getitem c ''drawCache'' = Inr (PyStr d)
     \<and> (p = ''true'' \<and> d = ''false'' \<or> p = ''false'' \<and> d = ''true''
          \<or> p = ''false'' \<and> d = ''false'')
     \<and> \<not> (p = ''true'' \<and> d = ''true'')"
  by (simp add: configs_def getitem_def)

theorem cache_flags_exclusive_witness:
  "getitem (configs ! 1) ''preparedCache'' = Inr (PyStr ''true'')
   \<and> getitem (configs ! 1) ''drawCache'' = Inr (PyStr ''false'')"
proof -
  have m: "configs ! 1 \<in> set configs" by (simp add: length_configs)
  have g: "getitem (configs ! 1) ''preparedCache'' = Inr (PyStr ''true'')"
    by (simp add: configs_def getitem_def)
  from cache_flags_exclusive m obtain p d where
    "getitem (configs ! 1) ''preparedCache'' = Inr (PyStr p)"
    "getitem (configs ! 1) ''drawCache'' = Inr (PyStr d)"
    "p = ''true'' \<and> d = ''false'' \<or> p = ''false'' \<and> d = ''true'' \<or> p = ''false'' \<and> d = ''false''"
    by blast
  with g show ?thesis by auto
qed

text \<open>
  C9, as stated: every entry has a string \<^verbatim>\<open>name\<close>, a positive integer \<^verbatim>\<open>size\<close>, a
  \<^verbatim>\<open>scenario\<close> that is STATIC or FULL_MUTATION, and booleans \<^verbatim>\<open>preparedCache\<close> and
  \<^verbatim>\<open>drawCache\<close>. The script stores the two flags as the strings \<^verbatim>\<open>"true"\<close> and
  \<^verbatim>\<open>"false"\<close>, ready to be passed on the command line, so the first entry already holds
  a flag that is not a boolean.
\<close>

theorem config_types_counterexample:
  "getitem (configs ! 0) ''preparedCache'' = Inr (PyStr ''false'')
   \<and> \<not> is_bool (PyStr ''false'')
   \<and> getitem (configs ! 0) ''drawCache'' = Inr (PyStr ''false'')"
  by (simp add: configs_def getitem_def)

text \<open>
  C9, amended: every entry has exactly the five keys, a string \<^verbatim>\<open>name\<close>, a positive
  integer \<^verbatim>\<open>size\<close>, a \<^verbatim>\<open>scenario\<close> that is the string STATIC or FULL_MUTATION, and
  \<^verbatim>\<open>preparedCache\<close> and \<^verbatim>\<open>drawCache\<close> that are each the string \<^verbatim>\<open>"true"\<close> or the
  string \<^verbatim>\<open>"false"\<close>.
\<close>

theorem config_types:
  "\<forall>c\<in>set configs. \<exists>nm n sc p d.
       map fst c = [''name'', ''size'', ''scenario'', ''preparedCache'', ''drawCache'']
     \<and> getitem c ''name'' = Inr (PyStr nm)
     \<and> getitem c ''size'' = Inr (PyInt n) \<and> 0 < n
     \<and> getitem c ''scenario'' = Inr (PyStr sc) \<and> (sc = ''STATIC'' \<or> sc = ''FULL_MUTATION'')
     \<and> getitem c ''preparedCache'' = Inr (PyStr p) \<and> (p = ''true'' \<or> p = ''false'')
     \<and> getitem c ''drawCache'' = Inr (PyStr d) \<and> (d = ''true'' \<or> d = ''false'')"
  by (simp add: configs_def getitem_def)

theorem config_types_witness:
  "getitem (configs ! 17) ''size'' = Inr (PyInt 1000)
   \<and> getitem (configs ! 17) ''scenario'' = Inr (PyStr ''FULL_MUTATION'')
   \<and> (\<exists>p. getitem (configs ! 17) ''preparedCache'' = Inr (PyStr p) \<and> \<not> is_bool (PyStr p))"
proof -
  have m: "configs ! 17 \<in> set configs" by (simp add: length_configs)
  have g: "getitem (configs ! 17) ''size'' = Inr (PyInt 1000)"
    "getitem (configs ! 17) ''scenario'' = Inr (PyStr ''FULL_MUTATION'')"
    by (simp_all add: configs_def getitem_def)
  from config_types m obtain p where
    "getitem (configs ! 17) ''preparedCache'' = Inr (PyStr p)" by blast
  with g show ?thesis by auto
qed

section \<open>The launch command\<close>

text \<open>
  C4. For every configuration of the list the launch command is \<^verbatim>\<open>adb shell am start -n\<close>
  with the activity, then \<^verbatim>\<open>--ei sceneSize\<close> with the decimal digits of the entry's size,
  \<^verbatim>\<open>--es scenario\<close> with its scenario, \<^verbatim>\<open>--ez enablePreparedSceneCache\<close> with its
  \<^verbatim>\<open>preparedCache\<close>, \<^verbatim>\<open>--ez enableDrawWithCache\<close> with its \<^verbatim>\<open>drawCache\<close>, and the two
  constants \<^verbatim>\<open>--es interaction NONE\<close> and \<^verbatim>\<open>--ei runs 1\<close>; \<open>launch_argv\<close>, the command line
  that the lifecycle of C1 runs with \<^verbatim>\<open>check=True\<close>, is this list.
\<close>

theorem launch_cmd_encodes_config:
  assumes "c \<in> set configs"
  shows "\<exists>n sc p d.
       getitem c ''size'' = Inr (PyInt n) \<and> getitem c ''scenario'' = Inr (PyStr sc)
     \<and> getitem c ''preparedCache'' = Inr (PyStr p) \<and> getitem c ''drawCache'' = Inr (PyStr d)
     \<and> launch_cmd c = Inr (map PyStr
         [''adb'', ''shell'', ''am'', ''start'', ''-n'',
          ''io.fabianterhorst.isometric.benchmark/.BenchmarkActivity'',
          ''--ei'', ''sceneSize'', str (PyInt n),
          ''--es'', ''scenario'', sc,
          ''--ez'', ''enablePreparedSceneCache'', p,
          ''--ez'', ''enableDrawWithCache'', d,
          ''--es'', ''interaction'', ''NONE'',
          ''--ei'', ''runs'', ''1''])
     \<and> launch_argv c =
         [''adb'', ''shell'', ''am'', ''start'', ''-n'',
          ''io.fabianterhorst.isometric.benchmark/.BenchmarkActivity'',
          ''--ei'', ''sceneSize'', str (PyInt n),
          ''--es'', ''scenario'', sc,
          ''--ez'', ''enablePreparedSceneCache'', p,
          ''--ez'', ''enableDrawWithCache'', d,
          ''--es'', ''interaction'', ''NONE'',
          ''--ei'', ''runs'', ''1'']"
proof -
  have "list_all (\<lambda>c. \<exists>n sc p d.
       getitem c ''size'' = Inr (PyInt n) \<and> getitem c ''scenario'' = Inr (PyStr sc)
     \<and> getitem c ''preparedCache'' = Inr (PyStr p) \<and> getitem c ''drawCache'' = Inr (PyStr d)) configs"
    by (simp add: configs_def getitem_def)
  with assms obtain n sc p d where
    k: "getitem c ''size'' = Inr (PyInt n)" "getitem c ''scenario'' = Inr (PyStr sc)"
       "getitem c ''preparedCache'' = Inr (PyStr p)" "getitem c ''drawCache'' = Inr (PyStr d)"
    by (auto simp: list_all_iff)
  then have "launch_cmd c = Inr (map PyStr
         [''adb'', ''shell'', ''am'', ''start'', ''-n'',
          ''io.fabianterhorst.isometric.benchmark/.BenchmarkActivity'',
          ''--ei'', ''sceneSize'', str (PyInt n),
          ''--es'', ''scenario'', sc,
          ''--ez'', ''enablePreparedSceneCache'', p,
          ''--ez'', ''enableDrawWithCache'', d,
          ''--es'', ''interaction'', ''NONE'',
          ''--ei'', ''runs'', ''1''])"
    by (simp add: launch_cmd_def del: str.simps)
  with k show ?thesis
    unfolding launch_argv_def by (simp only: sum.case argv_of_map_PyStr option.case) blast
qed

theorem launch_cmd_encodes_config_witness:
  "launch_argv (configs ! 4) =
         [''adb'', ''shell'', ''am'', ''start'', ''-n'',
          ''io.fabianterhorst.isometric.benchmark/.BenchmarkActivity'',
          ''--ei'', ''sceneSize'', ''100'',
          ''--es'', ''scenario'', ''FULL_MUTATION'',
          ''--ez'', ''enablePreparedSceneCache'', ''true'',
          ''--ez'', ''enableDrawWithCache'', ''false'',
          ''--es'', ''interaction'', ''NONE'',
          ''--ei'', ''runs'', ''1'']"
proof -
  have m: "configs ! 4 \<in> set configs" by (simp add: length_configs)
  have g: "getitem (configs ! 4) ''size'' = Inr (PyInt 100)"
    "getitem (configs ! 4) ''scenario'' = Inr (PyStr ''FULL_MUTATION'')"
    "getitem (configs ! 4) ''preparedCache'' = Inr (PyStr ''true'')"
    "getitem (configs ! 4) ''drawCache'' = Inr (PyStr ''false'')"
    by (simp_all add: configs_def getitem_def)
  have s: "str (PyInt 100) = ''100''"
    by (simp add: decimal.simps digit_def)
  from launch_cmd_encodes_config [OF m] g s show ?thesis by auto
qed

section \<open>The order of the commands\<close>



section \<open>A failing launch\<close>

text \<open>
  C2. If the launch command of configuration \<open>i\<close> fails (the trace holds its launch, run
  with \<^verbatim>\<open>check=True\<close> and answered with an exit status other than zero), the script ends
  there with \<^verbatim>\<open>CalledProcessError\<close>: what it has issued are the lifecycles of the
  configurations before \<open>i\<close> and the stop, pause, kill, pause, launch of configuration
  \<open>i\<close>, nothing after that. No later configuration is launched, no stop or kill of a
  later configuration is issued, and the results file is not retrieved.
\<close>

theorem launch_failure_halts:
  assumes "i < length configs"
    and "Run (launch_argv (configs ! i)) True r \<in> set (trace_of (main w))"
    and "returncode r \<noteq> 0"
  shows "\<exists>rc t. main w = Inl (CalledProcessError rc (launch_argv (configs ! i)), t) \<and> rc \<noteq> 0
     \<and> actions t = concat (map lifecycle (take i configs))
          @ [Command force_stop_argv False, Pause 3, Command kill_argv False, Pause 2,
             Command (launch_argv (configs ! i)) True]
     \<and> commands t
        = concat (map (\<lambda>c. [force_stop_argv, kill_argv, launch_argv c, force_stop_argv, kill_argv])
            (take i configs))
          @ [force_stop_argv, kill_argv, launch_argv (configs ! i)]
     \<and> cat_argv \<notin> set (commands t)
     \<and> (\<forall>j. i < j \<and> j < length configs \<longrightarrow> launch_argv (configs ! j) \<notin> set (commands t))"
proof -
  from failed_in_failures [OF assms(2,3)]
  have f: "launch_argv (configs ! i) \<in> set (failures (trace_of (main w)))" .
  note wfi = configs_nth_well_formed [OF assms(1)]
  from main_cases [of w] show ?thesis
  proof (elim disjE exE conjE)
    fix t assume "main w = Inr t" "failures t = []"
    with f show ?thesis by (simp add: trace_of_def)
  next
    fix t h assume "main w = Inl (CalledProcessError (returncode (w h cat_argv)) cat_argv, t)"
      "failures t = [cat_argv]"
    with f launch_argv_other(3) [OF wfi] show ?thesis by (simp add: trace_of_def)
  next
    fix k t h
    assume k: "k < length configs"
      and m: "main w = Inl (CalledProcessError (returncode (w h (launch_argv (configs ! k))))
                          (launch_argv (configs ! k)), t)"
      and rc: "returncode (w h (launch_argv (configs ! k))) \<noteq> 0"
      and a: "actions t = concat (map lifecycle (take k configs)) @ until_launch (configs ! k)"
      and fl: "failures t = [launch_argv (configs ! k)]"
    from f m fl have "launch_argv (configs ! i) = launch_argv (configs ! k)"
      by (simp add: trace_of_def)
    with assms(1) k have ik: "k = i" by (metis launch_argv_nth_eq)
    have c: "commands t
        = concat (map (\<lambda>c. [force_stop_argv, kill_argv, launch_argv c, force_stop_argv, kill_argv])
            (take i configs))
          @ [force_stop_argv, kill_argv, launch_argv (configs ! i)]"
      by (simp add: commands_of_actions a ik commands_lifecycles commands_until_launch)
    have wft: "list_all well_formed (take i configs)"
      using configs_well_formed by (auto simp: list_all_iff dest: in_set_takeD)
    have nocat: "cat_argv \<notin> set (commands t)"
      using cat_not_in_lifecycles [OF wft] launch_argv_other(3) [OF wfi]
      by (auto simp: commands_of_actions a ik commands_until_launch
          cat_argv_def force_stop_argv_def kill_argv_def)
    have later: "launch_argv (configs ! j) \<notin> set (commands t)"
      if j: "i < j" "j < length configs" for j
    proof
      assume "launch_argv (configs ! j) \<in> set (commands t)"
      with c set_commands_lifecycles [of "take i configs"]
        launch_argv_other(1,2) [OF configs_nth_well_formed [OF j(2)]]
      have "launch_argv (configs ! j) = launch_argv (configs ! i)
          \<or> (\<exists>c\<in>set (take i configs). launch_argv (configs ! j) = launch_argv c)"
        by (simp del: set_concat) blast
      then show False
      proof
        assume "launch_argv (configs ! j) = launch_argv (configs ! i)"
        with j assms(1) show False using launch_argv_nth_eq by blast
      next
        assume "\<exists>c\<in>set (take i configs). launch_argv (configs ! j) = launch_argv c"
        then obtain m where "m < i" "launch_argv (configs ! j) = launch_argv (configs ! m)"
          using assms(1) by (auto simp: in_set_conv_nth)
        with j assms(1) show False using launch_argv_nth_eq [of j m] by simp
      qed
    qed
    from m rc a ik c nocat later show ?thesis
      by (simp add: until_launch_def)
  qed
qed

theorem launch_failure_halts_witness:
  "\<exists>rc t. main third_launch_fails = Inl (CalledProcessError rc (launch_argv (configs ! 2)), t)
     \<and> actions t = concat (map lifecycle (take 2 configs))
          @ [Command force_stop_argv False, Pause 3, Command kill_argv False, Pause 2,
             Command (launch_argv (configs ! 2)) True]
     \<and> cat_argv \<notin> set (commands t)
     \<and> launch_argv (configs ! 3) \<notin> set (commands t)"
proof -
  have i: "2 < length configs" by (simp add: length_configs)
  note wf2 = configs_nth_well_formed [OF i]
  have "\<exists>r. Run (launch_argv (configs ! 2)) True r \<in> set (trace_of (main third_launch_fails))
      \<and> returncode r \<noteq> 0"
    using main_cases [of third_launch_fails]
  proof (elim disjE exE conjE)
    fix t
    assume "list_all (\<lambda>c. \<exists>h. returncode (third_launch_fails h (launch_argv c)) = 0) configs"
    with i have "\<exists>h. returncode (third_launch_fails h (launch_argv (configs ! 2))) = 0"
      by (simp add: list_all_length)
    then show ?thesis by (simp add: third_launch_fails_def)
  next
    fix t h assume "returncode (third_launch_fails h cat_argv) \<noteq> 0"
    with launch_argv_other(3) [OF wf2] show ?thesis
      by (simp add: third_launch_fails_def split: if_splits)
  next
    fix k t h
    assume k: "k < length configs"
      and m: "main third_launch_fails
         = Inl (CalledProcessError (returncode (third_launch_fails h (launch_argv (configs ! k))))
                          (launch_argv (configs ! k)), t)"
      and rc: "returncode (third_launch_fails h (launch_argv (configs ! k))) \<noteq> 0"
      and e: "Run (launch_argv (configs ! k)) True (third_launch_fails h (launch_argv (configs ! k)))
               \<in> set t"
    from rc have "launch_argv (configs ! k) = launch_argv (configs ! 2)"
      by (simp add: third_launch_fails_def split: if_splits)
    with m rc e show ?thesis by (auto simp: trace_of_def)
  qed
  then obtain r where "Run (launch_argv (configs ! 2)) True r \<in> set (trace_of (main third_launch_fails))"
    "returncode r \<noteq> 0" by blast
  from launch_failure_halts [OF i this] show ?thesis
    by (auto simp: length_configs)
qed

section \<open>Failing stop and kill commands\<close>



section \<open>The pauses of one configuration\<close>



section \<open>The command trace is a constant\<close>

text \<open>
  C10. The script reads no input. For any two worlds, whatever their commands write and
  whatever the results file holds: if in both executions every command that was run
  succeeded, both issued the same command lines in the same order, namely the sequence
  fixed by the configuration list; their steps, printing included, are the same too.
\<close>

theorem command_trace_constant:
  assumes "list_all succeeded (trace_of (main w))"
    and "list_all succeeded (trace_of (main w'))"
  shows "commands (trace_of (main w)) = commands (trace_of (main w'))
     \<and> commands (trace_of (main w))
        = concat (map (\<lambda>c. [force_stop_argv, kill_argv, launch_argv c, force_stop_argv, kill_argv])
            configs) @ [cat_argv]
     \<and> steps (trace_of (main w)) = steps (trace_of (main w'))"
proof -
  have run: "\<exists>t. main v = Inr t \<and> actions t = full_run"
    if "list_all succeeded (trace_of (main v))" for v
    using main_cases [of v] succeeded_no_failures [OF that]
    by (auto simp: trace_of_def)
  from run [OF assms(1)] obtain t where t: "main w = Inr t" "actions t = full_run" by blast
  from run [OF assms(2)] obtain t' where t': "main w' = Inr t'" "actions t' = full_run" by blast
  from main_same_steps [OF t(1) t'(1)] t t' show ?thesis
    by (simp add: trace_of_def commands_of_actions commands_full_run)
qed

theorem command_trace_constant_witness:
  "child_output (calm [] cat_argv) \<noteq> child_output (talkative [] cat_argv)
   \<and> commands (trace_of (main calm)) = commands (trace_of (main talkative))
   \<and> steps (trace_of (main calm)) = steps (trace_of (main talkative))"
proof -
  have ok: "list_all succeeded (trace_of (main v))" if "\<And>h a. returncode (v h a) = 0" for v
  proof -
    have "succeeded e" if "e \<in> set (trace_of (main v))" for e
    proof (cases e)
      case (Run a c r)
      with that main_answered [of v] obtain h where "r = v h a"
        unfolding answered_by_def by blast
      with Run \<open>\<And>h a. returncode (v h a) = 0\<close> show ?thesis by simp
    qed simp_all
    then show ?thesis by (simp add: list_all_iff)
  qed
  have "list_all succeeded (trace_of (main calm))"
    by (rule ok) (simp add: calm_def)
  moreover have "list_all succeeded (trace_of (main talkative))"
    by (rule ok) (simp add: talkative_def)
  ultimately show ?thesis
    using command_trace_constant [of calm talkative]
    by (simp add: calm_def talkative_def cat_argv_def)
qed

end
